theory Spec2Isabelle
  imports Complex_Main "HOL-Library.Sublist"
begin

section \<open>Performance-statistics analysis: the data model\<close>

text \<open>
  The development embeds the two scripts of \<^verbatim>\<open>perftools\<close>:
  \<^verbatim>\<open>analyze_filetype.py\<close> (selector and stage aggregator) and
  \<^verbatim>\<open>compare_datasets.py\<close> (comparator).

  Conventions of the embedding.
  \<^item> A Python exception is a value of \<open>error\<close>; a function that may raise returns
    \<open>error + 'a\<close>, with \<open>Inl\<close> for the exception.
  \<^item> The dictionaries read from the JSON document have a fixed set of keys and are
    records; a document with a missing key is outside the model.
  \<^item> Python integers are \<open>int\<close>. Python floats are modelled by \<open>real\<close>: the
    formulas are the ones of the source, rounding is not modelled. The one exception is
    the product in \<^verbatim>\<open>get_percentile\<close>, whose integer part selects an element: there the
    percentile is a binary floating-point number and the product is rounded as the
    machine rounds it.
  \<^item> Strings are byte strings; \<open>upper\<close> changes the ASCII letters only.
  \<^item> The scripts print their results. The model returns the printed numbers, in the
    order of printing, instead of the formatted text.
\<close>

datatype error = ZeroDivisionError | TypeError | AttributeError | IndexError | SystemExit

datatype pyval = PNone | PBool bool | PStr string

record photo =
  FilePath :: string
  FileSize :: int
  TotalTime :: int
  HashTime :: int
  MetadataTime :: int
  ImageDecodeTime :: int
  ThumbnailTime :: int
  ColorTime :: int
  PerceptualHashTime :: int
  InferenceTime :: int
  DatabaseTime :: int

record perf_summary =
  ProcessedPhotos :: int
  TotalBytes :: int
  AvgThroughputMBps :: real
  AvgTotalMs :: real
  AvgHashMs :: real
  AvgMetadataMs :: real
  AvgImageDecodeMs :: real
  AvgThumbnailMs :: real
  AvgColorMs :: real
  AvgPerceptualHashMs :: real
  AvgInferenceMs :: real
  AvgDatabaseMs :: real

record perfstats =
  summary :: perf_summary
  detailed :: "photo list"

section \<open>Python primitives used by the scripts\<close>

definition bind_err :: "error + 'a \<Rightarrow> ('a \<Rightarrow> error + 'b) \<Rightarrow> error + 'b" where
  "bind_err m f = (case m of Inl e \<Rightarrow> Inl e | Inr v \<Rightarrow> f v)"

fun traverse :: "('a \<Rightarrow> error + 'b) \<Rightarrow> 'a list \<Rightarrow> error + 'b list" where
  "traverse f [] = Inr []"
| "traverse f (x # xs) =
     bind_err (f x) (\<lambda>y. bind_err (traverse f xs) (\<lambda>ys. Inr (y # ys)))"

text \<open>Truthiness of a value in a condition.\<close>

fun truthy :: "pyval \<Rightarrow> bool" where
  "truthy PNone = False"
| "truthy (PBool b) = b"
| "truthy (PStr s) = (s \<noteq> [])"

text \<open>What an f-string prints for a value.\<close>

fun py_str :: "pyval \<Rightarrow> string" where
  "py_str PNone = ''None''"
| "py_str (PBool b) = (if b then ''True'' else ''False'')"
| "py_str (PStr s) = s"

definition upper_char :: "char \<Rightarrow> char" where
  "upper_char c =
     (let k = (of_char c :: nat) in if 97 \<le> k \<and> k \<le> 122 then char_of (k - 32) else c)"

definition upper :: "string \<Rightarrow> string" where
  "upper s = map upper_char s"

definition startswith :: "string \<Rightarrow> string \<Rightarrow> bool" where
  "startswith s pre = (take (length pre) s = pre)"

definition endswith :: "string \<Rightarrow> string \<Rightarrow> bool" where
  "endswith s suf = (length suf \<le> length s \<and> drop (length s - length suf) s = suf)"

text \<open>\<^verbatim>\<open>sub in s\<close> on two strings: \<open>sub\<close> occurs in \<open>s\<close> at some position.\<close>

fun str_contains :: "string \<Rightarrow> string \<Rightarrow> bool" where
  "str_contains sub [] = (sub = [])"
| "str_contains sub (c # cs) = (startswith (c # cs) sub \<or> str_contains sub cs)"

text \<open>\<^verbatim>\<open>a / b\<close> on numbers raises when the divisor is zero.\<close>

definition py_true_div :: "real \<Rightarrow> real \<Rightarrow> error + real" where
  "py_true_div a b = (if b = 0 then Inl ZeroDivisionError else Inr (a / b))"

text \<open>
  A finite Python float is a binary64 number: an integer mantissa of at most 53 bits
  times a power of two. \<open>Dbl m e\<close> stands for \<open>m * 2 ^ e\<close>; one number has several such
  pairs. The exponent is not bounded above: a product beyond the largest float is outside
  the model (for a percentile of at most 1 it needs a list of \<open>2 ^ 1024\<close> elements).
\<close>

datatype pyfloat = Dbl (mantissa: int) (exponent: int)

definition float_val :: "pyfloat \<Rightarrow> real" where
  "float_val d = real_of_int (mantissa d) * 2 powi exponent d"

definition is_double :: "pyfloat \<Rightarrow> bool" where
  "is_double d = (\<bar>mantissa d\<bar> < 2 ^ 53)"

text \<open>\<^verbatim>\<open>n.bit_length()\<close>: the number of binary digits of \<open>n\<close>.\<close>

fun bit_length :: "nat \<Rightarrow> nat" where
  "bit_length n = (if n = 0 then 0 else Suc (bit_length (n div 2)))"

declare bit_length.simps [simp del]

text \<open>
  Rounding of a natural number to 53 significant bits, to nearest, a tie to the even
  mantissa: the result \<open>(q, s)\<close> stands for \<open>q * 2 ^ s\<close>.
\<close>

definition round_53 :: "nat \<Rightarrow> nat \<times> nat" where
  "round_53 a =
     (let k = bit_length a in
      if k \<le> 53 then (a, 0)
      else
        let s = k - 53;
            q = a div 2 ^ s;
            r = a mod 2 ^ s
        in if 2 * r > 2 ^ s \<or> (2 * r = 2 ^ s \<and> odd q) then (q + 1, s) else (q, s))"

text \<open>The conversion of an integer operand to float, as in \<^verbatim>\<open>len(xs) * p\<close>.\<close>

definition float_of_nat :: "nat \<Rightarrow> pyfloat" where
  "float_of_nat n = (case round_53 n of (q, s) \<Rightarrow> Dbl (int q) (int s))"

text \<open>\<^verbatim>\<open>x * y\<close> on floats: the exact product, rounded once.\<close>

fun float_mul :: "pyfloat \<Rightarrow> pyfloat \<Rightarrow> pyfloat" where
  "float_mul (Dbl m1 e1) (Dbl m2 e2) =
     (case round_53 (nat \<bar>m1 * m2\<bar>) of
        (q, s) \<Rightarrow> Dbl (sgn (m1 * m2) * int q) (int s + e1 + e2))"

text \<open>\<^verbatim>\<open>int(x)\<close> on a float truncates towards zero.\<close>

fun py_int :: "pyfloat \<Rightarrow> int" where
  "py_int (Dbl m e) =
     (if 0 \<le> e then m * 2 ^ nat e else sgn m * (\<bar>m\<bar> div 2 ^ nat (- e)))"

text \<open>\<^verbatim>\<open>xs[i]\<close>: a negative index counts from the end, an index out of range raises.\<close>

definition py_index :: "'a list \<Rightarrow> int \<Rightarrow> error + 'a" where
  "py_index xs i =
     (let n = int (length xs) in
      if 0 \<le> i \<and> i < n then Inr (xs ! nat i)
      else if - n \<le> i \<and> i < 0 then Inr (xs ! nat (n + i))
      else Inl IndexError)"

text \<open>
  \<^verbatim>\<open>sorted(xs, key=k, reverse=True)\<close>: the list is reversed, sorted by a stable ascending
  sort, and reversed again.
\<close>

definition sorted_reverse :: "('a \<Rightarrow> real) \<Rightarrow> 'a list \<Rightarrow> 'a list" where
  "sorted_reverse k xs = rev (sort_key k (rev xs))"

section \<open>\<^verbatim>\<open>analyze_filetype.py\<close>\<close>

subsection \<open>\<^verbatim>\<open>filter_photos\<close>\<close>

text \<open>
  The second and third arguments are untyped in the source: \<^verbatim>\<open>main\<close> passes what the
  argument parser stored, which need not be a string and a boolean.
  \<^verbatim>\<open>x in s\<close> with \<open>x\<close> not a string raises TypeError as soon as one record is tested;
  \<^verbatim>\<open>x.startswith\<close> with \<open>x\<close> not a string raises AttributeError.
\<close>

definition filter_photos :: "photo list \<Rightarrow> pyval \<Rightarrow> pyval \<Rightarrow> error + photo list" where
  "filter_photos dets pat use_pattern =
     (if truthy use_pattern then
        (case pat of
           PStr s \<Rightarrow> Inr (filter (\<lambda>p. str_contains s (FilePath p)) dets)
         | _ \<Rightarrow> if dets = [] then Inr [] else Inl TypeError)
      else
        (case pat of
           PStr s \<Rightarrow>
             (let ext = (if startswith s ''.'' then s else ''.'' @ s)
              in Inr (filter (\<lambda>p. endswith (upper (FilePath p)) (upper ext)) dets))
         | _ \<Rightarrow> Inl AttributeError))"

subsection \<open>\<^verbatim>\<open>coefficient_of_variation\<close>\<close>

definition coefficient_of_variation :: "int list \<Rightarrow> real" where
  "coefficient_of_variation vals =
     (if vals = [] \<or> length vals < 2 then 0
      else
        let mean = real_of_int (sum_list vals) / real (length vals) in
        if mean = 0 then 0
        else
          let variance = sum_list (map (\<lambda>v. (real_of_int v - mean) ^ 2) vals) / real (length vals);
              std_dev = sqrt variance
          in (std_dev / mean) * 100)"

subsection \<open>\<^verbatim>\<open>get_percentile\<close>\<close>

definition get_percentile :: "real list \<Rightarrow> pyfloat \<Rightarrow> error + real" where
  "get_percentile sorted_values percentile =
     (if sorted_values = [] then Inr 0
      else
        let idx = py_int (float_mul (float_of_nat (length sorted_values)) percentile)
        in py_index sorted_values (min idx (int (length sorted_values) - 1)))"

subsection \<open>\<^verbatim>\<open>analyze_photos\<close>\<close>

record analysis =
  title :: string
  photo_count :: nat
  total_size_mb :: real
  avg_file_size_mb :: real
  throughput_mbps :: real
  stage_rows :: "(string \<times> real \<times> real) list"
  avg_total_ms :: real
  distribution_rows :: "(string \<times> real \<times> real \<times> real \<times> real) list"
  variability_rows :: "(string \<times> real) list"

datatype report = NoMatch string | Analysis analysis

text \<open>Lines 64-84: a field summed over the photos, and its average in milliseconds.\<close>

definition total_of :: "(photo \<Rightarrow> int) \<Rightarrow> photo list \<Rightarrow> int" where
  "total_of fld photos = sum_list (map fld photos)"

definition avg_ms :: "(photo \<Rightarrow> int) \<Rightarrow> photo list \<Rightarrow> real" where
  "avg_ms fld photos = real_of_int (total_of fld photos) / real (length photos) / 1000000"

text \<open>Line 89: the throughput, printed before any table.\<close>

definition throughput_of :: "photo list \<Rightarrow> error + real" where
  "throughput_of photos =
     py_true_div (real_of_int (total_of FileSize photos) / 1024 / 1024)
                 (real_of_int (total_of TotalTime photos) / 1000000000)"

text \<open>Lines 94-109: the average timings, in the declared order of the stages.\<close>

definition stage_averages :: "photo list \<Rightarrow> (string \<times> real) list" where
  "stage_averages photos =
     [(''Hash'', avg_ms HashTime photos),
      (''Metadata'', avg_ms MetadataTime photos),
      (''Image Decode'', avg_ms ImageDecodeTime photos),
      (''Thumbnails'', avg_ms ThumbnailTime photos),
      (''Color Extract'', avg_ms ColorTime photos),
      (''Perceptual Hash'', avg_ms PerceptualHashTime photos),
      (''Inference'', avg_ms InferenceTime photos),
      (''Database'', avg_ms DatabaseTime photos)]"

definition stage_table :: "photo list \<Rightarrow> (string \<times> real \<times> real) list" where
  "stage_table photos =
     (let avg_total = avg_ms TotalTime photos in
      map (\<lambda>(name, time_ms).
             (name, time_ms, if avg_total > 0 then (time_ms / avg_total) * 100 else 0))
          (stage_averages photos))"

text \<open>
  The floats that the literals \<^verbatim>\<open>0.5\<close> and \<^verbatim>\<open>0.95\<close> denote: \<open>1/2\<close> exactly, and
  \<^verbatim>\<open>0x1.e666666666666p-1\<close>, the binary64 number nearest to \<open>95/100\<close>.
\<close>

definition double_0_5 :: pyfloat where
  "double_0_5 = Dbl 1 (- 1)"

definition double_0_95 :: pyfloat where
  "double_0_95 = Dbl 8556839292003942 (- 53)"

text \<open>Lines 118-128: minimum, median, 95th percentile and maximum of one field.\<close>

definition distribution_row ::
  "string \<Rightarrow> (photo \<Rightarrow> int) \<Rightarrow> photo list \<Rightarrow> error + (string \<times> real \<times> real \<times> real \<times> real)" where
  "distribution_row name fld photos =
     (let times = sort (map (\<lambda>p. real_of_int (fld p) / 1000000) photos) in
      bind_err (py_index times 0) (\<lambda>lo.
      bind_err (get_percentile times double_0_5) (\<lambda>med.
      bind_err (get_percentile times double_0_95) (\<lambda>p95.
      bind_err (py_index times (- 1)) (\<lambda>hi.
        Inr (name, lo, med, p95, hi))))))"

definition distribution_table ::
  "photo list \<Rightarrow> error + (string \<times> real \<times> real \<times> real \<times> real) list" where
  "distribution_table photos =
     traverse (\<lambda>(name, fld). distribution_row name fld photos)
       [(''Image Decode'', ImageDecodeTime),
        (''Thumbnails'', ThumbnailTime),
        (''Color Extract'', ColorTime),
        (''TOTAL'', TotalTime)]"

text \<open>Lines 133-144: the coefficients of variation, printed by descending value.\<close>

definition variability :: "photo list \<Rightarrow> (string \<times> real) list" where
  "variability photos =
     [(''Hash'', coefficient_of_variation (map HashTime photos)),
      (''Metadata'', coefficient_of_variation (map MetadataTime photos)),
      (''Image Decode'', coefficient_of_variation (map ImageDecodeTime photos)),
      (''Thumbnails'', coefficient_of_variation (map ThumbnailTime photos)),
      (''Color Extract'', coefficient_of_variation (map ColorTime photos)),
      (''Perceptual Hash'', coefficient_of_variation (map PerceptualHashTime photos)),
      (''Database'', coefficient_of_variation (map DatabaseTime photos))]"

definition variability_table :: "photo list \<Rightarrow> (string \<times> real) list" where
  "variability_table photos = sorted_reverse snd (variability photos)"

definition analyze_photos :: "photo list \<Rightarrow> string \<Rightarrow> error + report" where
  "analyze_photos photos label =
     (if photos = [] then Inr (NoMatch ''No photos found matching pattern!'')
      else
        let n = length photos;
            total_bytes = total_of FileSize photos
        in
        bind_err (throughput_of photos) (\<lambda>tp.
        bind_err (distribution_table photos) (\<lambda>dist.
          Inr (Analysis
            \<lparr>title = upper label,
             photo_count = n,
             total_size_mb = real_of_int total_bytes / 1024 / 1024,
             avg_file_size_mb = real_of_int total_bytes / real n / 1024 / 1024,
             throughput_mbps = tp,
             stage_rows = stage_table photos,
             avg_total_ms = avg_ms TotalTime photos,
             distribution_rows = dist,
             variability_rows = variability_table photos\<rparr>))))"

subsection \<open>\<^verbatim>\<open>main\<close>\<close>

text \<open>
  The command line after the shell and the option scanner: a positional word, or the
  option \<^verbatim>\<open>--pattern\<close> (\<^verbatim>\<open>-p\<close>).
\<close>

datatype cli_arg = Positional string | PatternFlag

text \<open>
  The parser of lines 163-166 declares the positionals \<^verbatim>\<open>perfstats_file\<close> and
  \<^verbatim>\<open>pattern\<close> and the option \<^verbatim>\<open>--pattern\<close> with action \<^verbatim>\<open>store_true\<close>. The option's
  destination is derived from its name, so it is \<^verbatim>\<open>pattern\<close> too: the namespace has ONE
  attribute \<^verbatim>\<open>pattern\<close>, written by both actions, in command-line order. The attribute
  starts as the default of the action declared first (None).
\<close>

record namespace =
  perfstats_file :: pyval
  pattern :: pyval

fun parse_args_from :: "cli_arg list \<Rightarrow> nat \<Rightarrow> namespace \<Rightarrow> error + namespace" where
  "parse_args_from [] k ns = (if k = 2 then Inr ns else Inl SystemExit)"
| "parse_args_from (PatternFlag # rest) k ns =
     parse_args_from rest k (ns\<lparr>pattern := PBool True\<rparr>)"
| "parse_args_from (Positional w # rest) k ns =
     (if k = 0 then parse_args_from rest 1 (ns\<lparr>perfstats_file := PStr w\<rparr>)
      else if k = 1 then parse_args_from rest 2 (ns\<lparr>pattern := PStr w\<rparr>)
      else Inl SystemExit)"

definition parse_args :: "cli_arg list \<Rightarrow> error + namespace" where
  "parse_args argv = parse_args_from argv 0 \<lparr>perfstats_file = PNone, pattern = PNone\<rparr>"

text \<open>
  Lines 168-171: the records \<^verbatim>\<open>main\<close> hands to the analysis. \<open>load\<close> stands for
  \<^verbatim>\<open>load_perfstats\<close>, the reading of the document named on the command line.
\<close>

definition main_photos ::
  "(string \<Rightarrow> error + perfstats) \<Rightarrow> cli_arg list \<Rightarrow> error + photo list" where
  "main_photos load argv =
     bind_err (parse_args argv) (\<lambda>args.
     bind_err (case perfstats_file args of PStr f \<Rightarrow> load f | _ \<Rightarrow> Inl TypeError) (\<lambda>data.
       filter_photos (detailed data) (pattern args) (pattern args)))"

definition main :: "(string \<Rightarrow> error + perfstats) \<Rightarrow> cli_arg list \<Rightarrow> error + report" where
  "main load argv =
     bind_err (parse_args argv) (\<lambda>args.
     bind_err (main_photos load argv) (\<lambda>photos.
       let label = (if truthy (pattern args) then py_str (pattern args) @ '' files''
                    else py_str (pattern args) @ '' pattern'')
       in analyze_photos photos label))"

section \<open>\<^verbatim>\<open>compare_datasets.py\<close>\<close>

record comparison =
  pct_rows :: "(string \<times> real \<times> real \<times> real) list"
  abs_rows :: "(string \<times> real \<times> real \<times> real \<times> real) list"
  total_row :: "real \<times> real \<times> real \<times> real"

text \<open>Lines 35-44: the stages, each with the summary key that holds its average.\<close>

definition stages :: "(string \<times> (perf_summary \<Rightarrow> real)) list" where
  "stages =
     [(''Hash'', AvgHashMs),
      (''Metadata'', AvgMetadataMs),
      (''Image Decode'', AvgImageDecodeMs),
      (''Thumbnails'', AvgThumbnailMs),
      (''Color Extract'', AvgColorMs),
      (''Perceptual Hash'', AvgPerceptualHashMs),
      (''Inference'', AvgInferenceMs),
      (''Database'', AvgDatabaseMs)]"

text \<open>Lines 48-52: one row of the percentage table.\<close>

definition pct_row ::
  "perf_summary \<Rightarrow> perf_summary \<Rightarrow> string \<times> (perf_summary \<Rightarrow> real)
     \<Rightarrow> error + (string \<times> real \<times> real \<times> real)" where
  "pct_row small_summary large_summary st =
     (case st of (name, key) \<Rightarrow>
        bind_err (py_true_div (key small_summary) (AvgTotalMs small_summary)) (\<lambda>qs.
        bind_err (py_true_div (key large_summary) (AvgTotalMs large_summary)) (\<lambda>ql.
          let small_pct = qs * 100;
              large_pct = ql * 100;
              delta = large_pct - small_pct
          in Inr (name, small_pct, large_pct, delta))))"

text \<open>Lines 59-67: one row of the table of absolute timings.\<close>

definition abs_row ::
  "perf_summary \<Rightarrow> perf_summary \<Rightarrow> string \<times> (perf_summary \<Rightarrow> real)
     \<Rightarrow> error + (string \<times> real \<times> real \<times> real \<times> real)" where
  "abs_row small_summary large_summary st =
     (case st of (name, key) \<Rightarrow>
        let small_ms = key small_summary;
            large_ms = key large_summary;
            delta = large_ms - small_ms
        in
        if small_ms > 0 then
          bind_err (py_true_div large_ms small_ms) (\<lambda>q.
            Inr (name, small_ms, large_ms, delta, (q - 1) * 100))
        else Inr (name, small_ms, large_ms, delta, 0))"

text \<open>Lines 70-74: the line of totals.\<close>

definition total_line :: "perf_summary \<Rightarrow> perf_summary \<Rightarrow> error + (real \<times> real \<times> real \<times> real)" where
  "total_line small_summary large_summary =
     (let small_total = AvgTotalMs small_summary;
          large_total = AvgTotalMs large_summary;
          delta = large_total - small_total
      in bind_err (py_true_div large_total small_total) (\<lambda>q.
           Inr (small_total, large_total, delta, (q - 1) * 100)))"

definition compare_summaries :: "perfstats \<Rightarrow> perfstats \<Rightarrow> error + comparison" where
  "compare_summaries small large =
     (let small_summary = summary small;
          large_summary = summary large
      in
      bind_err (traverse (pct_row small_summary large_summary) stages) (\<lambda>pcts.
      bind_err (traverse (abs_row small_summary large_summary) stages) (\<lambda>abss.
      bind_err (total_line small_summary large_summary) (\<lambda>tot.
        Inr \<lparr>pct_rows = pcts, abs_rows = abss, total_row = tot\<rparr>))))"

section \<open>The specification's notions\<close>

text \<open>
  The definitions of this section follow the words of the specification; the theorems
  below compare them with the functions of the scripts.
\<close>

text \<open>The pattern with a leading dot, added when it is missing.\<close>

definition dot_normalized :: "string \<Rightarrow> string" where
  "dot_normalized pat =
     (case pat of
        [] \<Rightarrow> [CHR ''.'']
      | c # _ \<Rightarrow> if c = CHR ''.'' then pat else CHR ''.'' # pat)"

text \<open>Two strings are the same up to case when their uppercase forms are equal.\<close>

definition same_ignoring_case :: "string \<Rightarrow> string \<Rightarrow> bool" where
  "same_ignoring_case a b = (upper a = upper b)"

text \<open>A path ends with a suffix, up to case, when it splits into a front and such an ending.\<close>

definition ends_with_ignoring_case :: "string \<Rightarrow> string \<Rightarrow> bool" where
  "ends_with_ignoring_case path suf =
     (\<exists>pre rest. path = pre @ rest \<and> same_ignoring_case rest suf)"

text \<open>Mean, population variance (divisor \<open>n\<close>) and population standard deviation.\<close>

definition mean_of :: "int list \<Rightarrow> real" where
  "mean_of xs = (\<Sum>i<length xs. real_of_int (xs ! i)) / real (length xs)"

definition population_variance :: "int list \<Rightarrow> real" where
  "population_variance xs =
     (\<Sum>i<length xs. (real_of_int (xs ! i) - mean_of xs) ^ 2) / real (length xs)"

definition population_std_dev :: "int list \<Rightarrow> real" where
  "population_std_dev xs = sqrt (population_variance xs)"

text \<open>A row of the distribution table is ordered: minimum, median, 95th percentile, maximum.\<close>

fun row_ordered :: "string \<times> real \<times> real \<times> real \<times> real \<Rightarrow> bool" where
  "row_ordered (name, lo, med, p95, hi) = (lo \<le> med \<and> med \<le> p95 \<and> p95 \<le> hi)"

text \<open>The signed deltas of a comparison, by stage, and their negation.\<close>

definition pct_deltas :: "comparison \<Rightarrow> (string \<times> real) list" where
  "pct_deltas r = map (\<lambda>(name, small_pct, large_pct, delta). (name, delta)) (pct_rows r)"

definition abs_deltas :: "comparison \<Rightarrow> (string \<times> real) list" where
  "abs_deltas r = map (\<lambda>(name, small_ms, large_ms, delta, pct_change). (name, delta)) (abs_rows r)"

definition negated :: "(string \<times> real) list \<Rightarrow> (string \<times> real) list" where
  "negated ds = map (\<lambda>(name, delta). (name, - delta)) ds"

section \<open>Sample data\<close>

text \<open>A record of a file \<^verbatim>\<open>photo.DNG\<close> of one MiB whose timings are all zero.\<close>

definition photo_dng :: photo where
  "photo_dng = \<lparr>FilePath = ''photo.DNG'', FileSize = 1048576, TotalTime = 0, HashTime = 0,
     MetadataTime = 0, ImageDecodeTime = 0, ThumbnailTime = 0, ColorTime = 0,
     PerceptualHashTime = 0, InferenceTime = 0, DatabaseTime = 0\<rparr>"

text \<open>
  The floats that the literals \<^verbatim>\<open>0.6\<close> and \<^verbatim>\<open>0.58\<close> denote
  (\<^verbatim>\<open>0x1.3333333333333p-1\<close> and \<^verbatim>\<open>0x1.28f5c28f5c28fp-1\<close>), and the values 1 to 50.
\<close>

definition double_0_6 :: pyfloat where
  "double_0_6 = Dbl 5404319552844595 (- 53)"

definition double_0_58 :: pyfloat where
  "double_0_58 = Dbl 5224175567749775 (- 53)"

definition one_to_fifty :: "real list" where
  "one_to_fifty = map real [1..<51]"

text \<open>Two records whose stage timings differ, the inference timing most of all.\<close>

definition shot_a :: photo where
  "shot_a = \<lparr>FilePath = ''a.jpg'', FileSize = 1048576, TotalTime = 100, HashTime = 10,
     MetadataTime = 10, ImageDecodeTime = 0, ThumbnailTime = 10, ColorTime = 0,
     PerceptualHashTime = 10, InferenceTime = 0, DatabaseTime = 10\<rparr>"

definition shot_b :: photo where
  "shot_b = \<lparr>FilePath = ''b.jpg'', FileSize = 1048576, TotalTime = 200, HashTime = 10,
     MetadataTime = 30, ImageDecodeTime = 10, ThumbnailTime = 30, ColorTime = 10,
     PerceptualHashTime = 10, InferenceTime = 50, DatabaseTime = 10\<rparr>"

text \<open>The summary of a run that processed nothing, and the summaries of two runs.\<close>

definition zero_summary :: perf_summary where
  "zero_summary = \<lparr>ProcessedPhotos = 0, TotalBytes = 0, AvgThroughputMBps = 0, AvgTotalMs = 0,
     AvgHashMs = 0, AvgMetadataMs = 0, AvgImageDecodeMs = 0, AvgThumbnailMs = 0,
     AvgColorMs = 0, AvgPerceptualHashMs = 0, AvgInferenceMs = 0, AvgDatabaseMs = 0\<rparr>"

definition summary_a :: perf_summary where
  "summary_a = \<lparr>ProcessedPhotos = 10, TotalBytes = 10485760, AvgThroughputMBps = 10,
     AvgTotalMs = 100, AvgHashMs = 10, AvgMetadataMs = 5, AvgImageDecodeMs = 20,
     AvgThumbnailMs = 30, AvgColorMs = 10, AvgPerceptualHashMs = 5, AvgInferenceMs = 0,
     AvgDatabaseMs = 5\<rparr>"

definition summary_b :: perf_summary where
  "summary_b = \<lparr>ProcessedPhotos = 100, TotalBytes = 104857600, AvgThroughputMBps = 8,
     AvgTotalMs = 150, AvgHashMs = 20, AvgMetadataMs = 5, AvgImageDecodeMs = 30,
     AvgThumbnailMs = 45, AvgColorMs = 15, AvgPerceptualHashMs = 5, AvgInferenceMs = 15,
     AvgDatabaseMs = 6\<rparr>"

text \<open>A document that holds a summary and no records.\<close>

definition dataset_of :: "perf_summary \<Rightarrow> perfstats" where
  "dataset_of s = \<lparr>summary = s, detailed = []\<rparr>"

text \<open>A document with the single record \<open>photo_dng\<close>, and a loader that reads it.\<close>

definition one_dng :: perfstats where
  "one_dng = \<lparr>summary = zero_summary, detailed = [photo_dng]\<rparr>"

definition load_one_dng :: "string \<Rightarrow> error + perfstats" where
  "load_one_dng f = Inr one_dng"

section \<open>Empty input\<close>

text \<open>
  Claim C10. Called with an empty list of records, \<^verbatim>\<open>analyze_photos\<close> raises nothing and
  computes no statistics: its whole result is the message that no photo matched.
\<close>

theorem analyze_photos_empty: "analyze_photos [] label = Inr (NoMatch ''No photos found matching pattern!'')"
  by (simp add: analyze_photos_def)

section \<open>The selector\<close>

lemma length_upper: "length (upper s) = length s"
  by (simp add: upper_def)

lemma upper_append: "upper (a @ b) = upper a @ upper b"
  by (simp add: upper_def)

lemma endswith_suffix: "endswith s suf \<longleftrightarrow> suffix suf s"
proof
  assume "endswith s suf"
  then have "s = take (length s - length suf) s @ suf"
    unfolding endswith_def by (metis append_take_drop_id)
  then show "suffix suf s" unfolding suffix_def by blast
next
  assume "suffix suf s"
  then obtain zs where "s = zs @ suf" unfolding suffix_def by blast
  then show "endswith s suf" by (simp add: endswith_def)
qed

lemma endswith_upper_iff:
  "endswith (upper path) (upper suf) \<longleftrightarrow> ends_with_ignoring_case path suf"
proof
  assume "endswith (upper path) (upper suf)"
  then have len: "length suf \<le> length path"
    and dr: "drop (length path - length suf) (upper path) = upper suf"
    by (simp_all add: endswith_def length_upper)
  let ?k = "length path - length suf"
  have "path = take ?k path @ drop ?k path" by simp
  moreover have "upper (drop ?k path) = upper suf"
    using dr by (simp add: upper_def drop_map)
  ultimately show "ends_with_ignoring_case path suf"
    unfolding ends_with_ignoring_case_def same_ignoring_case_def by blast
next
  assume "ends_with_ignoring_case path suf"
  then obtain pre rest where p: "path = pre @ rest" and e: "upper rest = upper suf"
    unfolding ends_with_ignoring_case_def same_ignoring_case_def by blast
  have "suffix (upper suf) (upper path)"
    unfolding suffix_def using p e upper_append by metis
  then show "endswith (upper path) (upper suf)" by (simp add: endswith_suffix)
qed

lemma startswith_prefix: "startswith s pre \<longleftrightarrow> prefix pre s"
proof
  assume "startswith s pre"
  then have "s = pre @ drop (length pre) s"
    unfolding startswith_def by (metis append_take_drop_id)
  then show "prefix pre s" unfolding prefix_def by blast
next
  assume "prefix pre s"
  then show "startswith s pre" by (auto simp: prefix_def startswith_def)
qed

lemma str_contains_sublist: "str_contains sub s \<longleftrightarrow> sublist sub s"
proof (induction s)
  case Nil
  then show ?case by simp
next
  case (Cons c cs)
  then show ?case by (simp add: startswith_prefix sublist_Cons_right)
qed

lemma ext_dot_normalized:
  "(if startswith s ''.'' then s else ''.'' @ s) = dot_normalized s"
  by (cases s) (auto simp: startswith_def dot_normalized_def)

text \<open>
  Claim C7. In extension mode \<^verbatim>\<open>filter_photos\<close> keeps exactly the records whose path has
  an ending equal, up to case, to the pattern with its leading dot; in substring mode it
  keeps exactly the records whose path contains the pattern literally, case mattering.
  The path \<^verbatim>\<open>photo.DNG\<close> is kept for the extension patterns \<^verbatim>\<open>dng\<close> and \<^verbatim>\<open>.DNG\<close>
  alike; as a substring pattern \<^verbatim>\<open>dng\<close> does not select it and \<^verbatim>\<open>DNG\<close> does.
\<close>

theorem filter_photos_modes:
  "filter_photos dets (PStr pat) (PBool False) =
     Inr (filter (\<lambda>p. ends_with_ignoring_case (FilePath p) (dot_normalized pat)) dets)
   \<and> filter_photos dets (PStr pat) (PBool True) =
     Inr (filter (\<lambda>p. sublist pat (FilePath p)) dets)
   \<and> filter_photos [photo_dng] (PStr ''dng'') (PBool False) = Inr [photo_dng]
   \<and> filter_photos [photo_dng] (PStr ''.DNG'') (PBool False) = Inr [photo_dng]
   \<and> filter_photos [photo_dng] (PStr ''dng'') (PBool True) = Inr []
   \<and> filter_photos [photo_dng] (PStr ''DNG'') (PBool True) = Inr [photo_dng]"
proof -
  have a: "filter_photos dets (PStr pat) (PBool False) =
     Inr (filter (\<lambda>p. ends_with_ignoring_case (FilePath p) (dot_normalized pat)) dets)"
    by (simp add: filter_photos_def ext_dot_normalized endswith_upper_iff del: One_nat_def)
  have b: "filter_photos dets (PStr pat) (PBool True) =
     Inr (filter (\<lambda>p. sublist pat (FilePath p)) dets)"
    by (simp add: filter_photos_def str_contains_sublist)
  have c: "filter_photos [photo_dng] (PStr ''dng'') (PBool False) = Inr [photo_dng]"
    by code_simp
  have d: "filter_photos [photo_dng] (PStr ''.DNG'') (PBool False) = Inr [photo_dng]"
    by code_simp
  have e: "filter_photos [photo_dng] (PStr ''dng'') (PBool True) = Inr []"
    by code_simp
  have f: "filter_photos [photo_dng] (PStr ''DNG'') (PBool True) = Inr [photo_dng]"
    by code_simp
  from a b c d e f show ?thesis by blast
qed

section \<open>Floating-point rounding\<close>

lemma bit_length_bounds: "n \<noteq> 0 \<Longrightarrow> 2 ^ (bit_length n - 1) \<le> n \<and> n < 2 ^ bit_length n"
proof (induction n rule: bit_length.induct)
  case (1 n)
  show ?case
  proof (cases "n div 2 = 0")
    case True
    with "1.prems" have "n = 1" by (auto simp: div_eq_0_iff)
    then show ?thesis by (simp add: bit_length.simps)
  next
    case False
    with "1.IH" [OF "1.prems"] have ih: "2 ^ (bit_length (n div 2) - 1) \<le> n div 2"
      "n div 2 < 2 ^ bit_length (n div 2)" by simp_all
    have pos: "0 < bit_length (n div 2)" using False by (simp add: bit_length.simps [of "n div 2"])
    have bl: "bit_length n = Suc (bit_length (n div 2))"
      using "1.prems" by (simp add: bit_length.simps [of n])
    have "2 ^ (bit_length n - 1) = 2 * 2 ^ (bit_length (n div 2) - 1)"
      using pos bl by (cases "bit_length (n div 2)") simp_all
    also have "\<dots> \<le> 2 * (n div 2)" using ih(1) by simp
    also have "\<dots> \<le> n" by simp
    finally have lo: "2 ^ (bit_length n - 1) \<le> n" .
    have "n < 2 * (n div 2) + 2" by arith
    also have "\<dots> \<le> 2 * 2 ^ bit_length (n div 2)" using ih(2) by simp
    finally have "n < 2 ^ bit_length n" by (simp add: bl)
    with lo show ?thesis by simp
  qed
qed

lemma round_53_close:
  assumes "round_53 a = (q, s)"
  shows "real a * (1 - 1 / 2 ^ 52) \<le> real (q * 2 ^ s) \<and> real (q * 2 ^ s) \<le> real a * (1 + 1 / 2 ^ 52)"
proof (cases "bit_length a \<le> 53")
  case True
  with assms have "q = a" "s = 0" by (simp_all add: round_53_def)
  then show ?thesis by (simp add: algebra_simps)
next
  case False
  define t where "t = bit_length a - 53"
  define q0 where "q0 = a div 2 ^ t"
  define r where "r = a mod 2 ^ t"
  define u :: nat where "u = 2 ^ t"
  have rd: "round_53 a =
      (if 2 * r > 2 ^ t \<or> (2 * r = 2 ^ t \<and> odd q0) then (q0 + 1, t) else (q0, t))"
    using False by (simp only: round_53_def Let_def t_def q0_def r_def if_False)
  have s: "s = t" and q: "q = q0 \<or> q = q0 + 1"
  proof -
    show "s = t"
    proof (cases "2 * r > 2 ^ t \<or> (2 * r = 2 ^ t \<and> odd q0)")
      case True
      then have "round_53 a = (q0 + 1, t)" by (simp only: rd if_True)
      with assms show ?thesis by simp
    next
      case False
      then have "round_53 a = (q0, t)" by (simp only: rd if_False)
      with assms show ?thesis by simp
    qed
    show "q = q0 \<or> q = q0 + 1"
    proof (cases "2 * r > 2 ^ t \<or> (2 * r = 2 ^ t \<and> odd q0)")
      case True
      then have "round_53 a = (q0 + 1, t)" by (simp only: rd if_True)
      with assms show ?thesis by simp
    next
      case False
      then have "round_53 a = (q0, t)" by (simp only: rd if_False)
      with assms show ?thesis by simp
    qed
  qed
  have a: "a = q0 * u + r" unfolding q0_def r_def u_def by (rule div_mult_mod_eq [symmetric])
  have r: "r < u" by (simp add: r_def u_def)
  have "a \<noteq> 0"
  proof
    assume "a = 0"
    then have "bit_length a = 0" by (simp add: bit_length.simps [of 0])
    with False show False by simp
  qed
  then have "2 ^ (bit_length a - 1) \<le> a" using bit_length_bounds by blast
  moreover have "bit_length a - 1 = t + 52" using False by (simp add: t_def)
  ultimately have big: "u * 2 ^ 52 \<le> a" by (simp add: power_add u_def)
  then have "real (u * 2 ^ 52) \<le> real a" by (rule of_nat_mono)
  then have "real u * 2 ^ 52 \<le> real a" by simp
  then have step: "real u \<le> real a / 2 ^ 52" by (simp add: pos_le_divide_eq)
  have q_lo: "q0 * u \<le> q * u" using q by (intro mult_le_mono1) auto
  have q_hi: "q * u \<le> q0 * u + u"
  proof -
    have "q \<le> q0 + 1" using q by auto
    then have "q * u \<le> (q0 + 1) * u" by (rule mult_le_mono1)
    then show ?thesis by simp
  qed
  have nl: "a \<le> q * u + u" using a r q_lo by linarith
  have nh: "q * u \<le> a + u" using a q_hi by linarith
  have "real a \<le> real (q * u + u)" using nl by (rule of_nat_mono)
  then have l: "real a - real u \<le> real (q * u)" by simp
  have "real (q * u) \<le> real (a + u)" using nh by (rule of_nat_mono)
  then have h: "real (q * u) \<le> real a + real u" by simp
  have "real a * (1 - 1 / 2 ^ 52) = real a - real a / 2 ^ 52" by (simp add: right_diff_distrib)
  also have "\<dots> \<le> real a - real u" using step by simp
  also have "\<dots> \<le> real (q * u)" by (rule l)
  finally have L: "real a * (1 - 1 / 2 ^ 52) \<le> real (q * u)" .
  have "real (q * u) \<le> real a + real a / 2 ^ 52" using h step by simp
  also have "\<dots> = real a * (1 + 1 / 2 ^ 52)" by (simp add: distrib_left)
  finally have H: "real (q * u) \<le> real a * (1 + 1 / 2 ^ 52)" .
  from L H show ?thesis unfolding s u_def by blast
qed


lemma bit_length_0: "bit_length 0 = 0"
  by (simp add: bit_length.simps [of 0])

lemma bit_length_le: "n < 2 ^ k \<Longrightarrow> bit_length n \<le> k"
proof (cases "n = 0")
  case True
  then show ?thesis by (simp add: bit_length_0)
next
  case False
  assume lt: "n < 2 ^ k"
  have "2 ^ (bit_length n - 1) \<le> n" using False bit_length_bounds by blast
  then have "(2::nat) ^ (bit_length n - 1) < 2 ^ k" using lt by (rule le_less_trans)
  then have "bit_length n - 1 < k" by (simp only: power_strict_increasing_iff one_less_numeral_iff semiring_norm)
  then show ?thesis by simp
qed

lemma bit_length_eqI:
  assumes "2 ^ k \<le> n" and "n < 2 ^ Suc k"
  shows "bit_length n = Suc k"
proof -
  have ne: "n \<noteq> 0" using assms(1) by (cases "n = 0") simp_all
  have up: "bit_length n \<le> Suc k" using assms(2) by (rule bit_length_le)
  have "n < 2 ^ bit_length n" using ne bit_length_bounds by blast
  with assms(1) have "(2::nat) ^ k < 2 ^ bit_length n" by (rule le_less_trans)
  then have "k < bit_length n" by (simp only: power_strict_increasing_iff one_less_numeral_iff semiring_norm)
  with up show ?thesis by simp
qed

lemma round_53_exact: "a < 2 ^ 53 \<Longrightarrow> round_53 a = (a, 0)"
  using bit_length_le [of a 53] by (simp add: round_53_def)

lemma float_of_nat_exact: "n < 2 ^ 53 \<Longrightarrow> float_of_nat n = Dbl (int n) 0"
  by (simp add: float_of_nat_def round_53_exact)

lemma float_of_nat_close:
  "0 \<le> mantissa (float_of_nat n)
   \<and> real n * (1 - 1 / 2 ^ 52) \<le> float_val (float_of_nat n)
   \<and> float_val (float_of_nat n) \<le> real n * (1 + 1 / 2 ^ 52)"
proof -
  obtain q s where qs: "round_53 n = (q, s)" by (cases "round_53 n")
  have v: "float_val (float_of_nat n) = real (q * 2 ^ s)"
    by (simp add: float_of_nat_def qs float_val_def)
  have m: "mantissa (float_of_nat n) = int q" by (simp add: float_of_nat_def qs)
  from round_53_close [OF qs] v m show ?thesis by simp
qed

lemma float_mul_close:
  assumes "0 \<le> mantissa x" and "0 \<le> mantissa y"
  shows "0 \<le> mantissa (float_mul x y)
   \<and> float_val x * float_val y * (1 - 1 / 2 ^ 52) \<le> float_val (float_mul x y)
   \<and> float_val (float_mul x y) \<le> float_val x * float_val y * (1 + 1 / 2 ^ 52)"
proof -
  obtain m1 e1 where x: "x = Dbl m1 e1" by (cases x)
  obtain m2 e2 where y: "y = Dbl m2 e2" by (cases y)
  have nn: "0 \<le> m1 * m2" using assms x y by simp
  define a where "a = nat \<bar>m1 * m2\<bar>"
  obtain q s where qs: "round_53 a = (q, s)" by (cases "round_53 a")
  have ia: "int a = m1 * m2" using nn by (simp add: a_def)
  have sg: "sgn (m1 * m2) * int q = int q"
  proof (cases "m1 * m2 = 0")
    case True
    then have "a = 0" by (simp add: a_def)
    then have "q = 0" using qs by (simp add: round_53_exact)
    then show ?thesis by simp
  next
    case False
    with nn have "0 < m1 * m2" by (rule le_neq_trans [OF _ not_sym])
    then have "sgn (m1 * m2) = 1" by (rule sgn_pos)
    then show ?thesis by (simp only: mult_1)
  qed
  have r: "float_mul x y = Dbl (int q) (int s + e1 + e2)"
    using qs sg by (simp add: x y a_def)
  define P :: real where "P = 2 powi e1 * 2 powi e2"
  have P: "0 \<le> P" by (simp add: P_def)
  have "(2::real) powi (int s + e1 + e2) = 2 ^ s * (2 powi e1 * 2 powi e2)"
    by (simp add: power_int_add)
  then have v: "float_val (float_mul x y) = real (q * 2 ^ s) * P"
    by (simp add: r float_val_def P_def)
  have "real_of_int (m1 * m2) = real a" using ia by (metis of_int_of_nat_eq)
  then have w: "float_val x * float_val y = real a * P"
    by (simp add: x y float_val_def P_def)
  have lo: "real a * P * (1 - 1 / 2 ^ 52) \<le> real (q * 2 ^ s) * P"
  proof -
    have "real a * (1 - 1 / 2 ^ 52) * P \<le> real (q * 2 ^ s) * P"
      using round_53_close [OF qs] P by (intro mult_right_mono) simp_all
    then show ?thesis by (simp only: mult.assoc mult.commute [of P])
  qed
  have hi: "real (q * 2 ^ s) * P \<le> real a * P * (1 + 1 / 2 ^ 52)"
  proof -
    have "real (q * 2 ^ s) * P \<le> real a * (1 + 1 / 2 ^ 52) * P"
      using round_53_close [OF qs] P by (intro mult_right_mono) simp_all
    then show ?thesis by (simp only: mult.assoc mult.commute [of P])
  qed
  have "0 \<le> mantissa (float_mul x y)" by (simp add: r)
  with lo hi show ?thesis unfolding v w by blast
qed

lemma py_int_floor: "0 \<le> mantissa d \<Longrightarrow> py_int d = \<lfloor>float_val d\<rfloor>"
proof (cases d)
  case (Dbl m e)
  assume "0 \<le> mantissa d"
  then have m: "0 \<le> m" by (simp add: Dbl)
  show ?thesis
  proof (cases "0 \<le> e")
    case True
    then have "(2::real) powi e = 2 ^ nat e" by (simp add: power_int_def)
    then have "float_val d = real_of_int (m * 2 ^ nat e)" by (simp add: Dbl float_val_def)
    then have "\<lfloor>float_val d\<rfloor> = m * 2 ^ nat e" by (simp only: floor_of_int)
    with True show ?thesis by (simp add: Dbl)
  next
    case False
    then have "(2::real) powi e = 1 / 2 ^ nat (- e)" by (simp add: power_int_def field_simps)
    then have "float_val d = real_of_int m / real_of_int (2 ^ nat (- e))"
      by (simp add: Dbl float_val_def)
    then have f: "\<lfloor>float_val d\<rfloor> = m div 2 ^ nat (- e)" by (simp only: floor_divide_of_int_eq)
    have "sgn m * (\<bar>m\<bar> div 2 ^ nat (- e)) = m div 2 ^ nat (- e)"
    proof (cases "m = 0")
      case True
      then show ?thesis by simp
    next
      case False
      with m have "0 < m" by simp
      then show ?thesis by simp
    qed
    with False f show ?thesis by (simp add: Dbl)
  qed
qed

lemma bit_length_shift:
  assumes "n \<noteq> 0"
  shows "bit_length (n * 2 ^ k) = bit_length n + k"
proof -
  obtain j where j: "bit_length n = Suc j"
    using assms by (cases "bit_length n") (simp_all add: bit_length.simps [of n])
  have "2 ^ j \<le> n" and "n < 2 ^ Suc j"
    using bit_length_bounds [OF assms] j by simp_all
  then have "2 ^ (j + k) \<le> n * 2 ^ k" and "n * 2 ^ k < 2 ^ Suc (j + k)"
    by (simp_all add: power_add)
  then have "bit_length (n * 2 ^ k) = Suc (j + k)" by (rule bit_length_eqI)
  with j show ?thesis by simp
qed

lemma round_53_shift_exact:
  assumes "n < 2 ^ 53" and "round_53 (n * 2 ^ k) = (q, s)"
  shows "q * 2 ^ s = n * 2 ^ k"
proof (cases "bit_length (n * 2 ^ k) \<le> 53")
  case True
  with assms(2) show ?thesis by (simp add: round_53_def)
next
  case False
  define t where "t = bit_length (n * 2 ^ k) - 53"
  have ne: "n \<noteq> 0"
  proof
    assume "n = 0"
    then have "bit_length (n * 2 ^ k) = 0" by (simp add: bit_length_0)
    with False show False by simp
  qed
  have "bit_length n \<le> 53" using assms(1) by (rule bit_length_le)
  then have tk: "t \<le> k" using bit_length_shift [OF ne, of k] by (simp add: t_def)
  then have split: "n * 2 ^ k = (n * 2 ^ (k - t)) * 2 ^ t"
    by (simp add: power_add [symmetric])
  have d: "n * 2 ^ k div 2 ^ t = n * 2 ^ (k - t)" by (simp add: split)
  have m: "n * 2 ^ k mod 2 ^ t = 0" by (simp add: split)
  have "round_53 (n * 2 ^ k) = (n * 2 ^ (k - t), t)"
    using False by (simp add: round_53_def Let_def t_def [symmetric] d m)
  with assms(2) have "(q, s) = (n * 2 ^ (k - t), t)" by (rule trans [OF sym])
  then have "q = n * 2 ^ (k - t)" and "s = t" by blast+
  then show ?thesis by (simp only: split)
qed

section \<open>Percentiles\<close>

lemma clamp_lt_length: "xs \<noteq> [] \<Longrightarrow> min k (length xs - 1) < length xs"
proof -
  assume "xs \<noteq> []"
  then have "0 < length xs" by simp
  then show ?thesis by arith
qed

lemma py_index_in_range: "k < length xs \<Longrightarrow> py_index xs (int k) = Inr (xs ! k)"
  by (simp add: py_index_def)

lemma py_index_first: "xs \<noteq> [] \<Longrightarrow> py_index xs 0 = Inr (xs ! 0)"
  using py_index_in_range [of 0 xs] by simp

lemma py_index_last: "xs \<noteq> [] \<Longrightarrow> py_index xs (- 1) = Inr (xs ! (length xs - 1))"
proof -
  assume ne: "xs \<noteq> []"
  then have pos: "0 < length xs" by simp
  then have "nat (int (length xs) + - 1) = length xs - 1" by arith
  moreover have "\<not> (0 \<le> (- 1 :: int))" by simp
  moreover have "- int (length xs) \<le> - 1" using pos by arith
  ultimately show ?thesis by (simp add: py_index_def Let_def)
qed

text \<open>The float product that \<^verbatim>\<open>get_percentile\<close> truncates, as a real number.\<close>

lemma float_product_nonneg:
  assumes "0 \<le> mantissa p"
  shows "0 \<le> mantissa (float_mul (float_of_nat n) p)
       \<and> 0 \<le> float_val (float_mul (float_of_nat n) p)"
proof -
  have m: "0 \<le> mantissa (float_mul (float_of_nat n) p)"
    using float_mul_close [of "float_of_nat n" p] float_of_nat_close [of n] assms by blast
  then have "0 \<le> float_val (float_mul (float_of_nat n) p)"
    by (simp add: float_val_def)
  with m show ?thesis by blast
qed

lemma get_percentile_index:
  assumes "xs \<noteq> []" and "0 \<le> mantissa p"
  shows "get_percentile xs p =
    Inr (xs ! min (nat \<lfloor>float_val (float_mul (float_of_nat (length xs)) p)\<rfloor>) (length xs - 1))"
proof -
  let ?n = "length xs"
  let ?d = "float_mul (float_of_nat ?n) p"
  let ?f = "\<lfloor>float_val ?d\<rfloor>"
  have pos: "0 < ?n" using assms(1) by simp
  have nn: "0 \<le> mantissa ?d" and vv: "0 \<le> float_val ?d"
    using float_product_nonneg [OF assms(2), of ?n] by blast+
  have f0: "0 \<le> ?f" using vv by simp
  have pi: "py_int ?d = ?f" using nn by (rule py_int_floor)
  have eq: "min ?f (int ?n - 1) = int (min (nat ?f) (?n - 1))"
    using f0 pos by arith
  have lt: "min (nat ?f) (?n - 1) < ?n" using assms(1) by (rule clamp_lt_length)
  have "get_percentile xs p = py_index xs (min ?f (int ?n - 1))"
    using assms(1) by (simp add: get_percentile_def Let_def pi)
  also have "\<dots> = py_index xs (int (min (nat ?f) (?n - 1)))" by (simp only: eq)
  also have "\<dots> = Inr (xs ! min (nat ?f) (?n - 1))" using lt by (rule py_index_in_range)
  finally show ?thesis .
qed

lemma float_val_double_0_5: "float_val double_0_5 = 1 / 2"
  by (simp add: float_val_def double_0_5_def)

lemma float_val_double_0_95: "float_val double_0_95 = 8556839292003942 / 2 ^ 53"
  by (simp add: float_val_def double_0_95_def)

lemma double_0_95_nearest: "\<bar>float_val double_0_95 - 95 / 100\<bar> \<le> 1 / 2 ^ 54"
  by (simp add: float_val_double_0_95)

lemma median_product_le_p95_product:
  "float_val (float_mul (float_of_nat n) double_0_5)
     \<le> float_val (float_mul (float_of_nat n) double_0_95)"
proof -
  let ?N = "float_val (float_of_nat n)"
  have m: "0 \<le> mantissa (float_of_nat n)" using float_of_nat_close [of n] by blast
  then have N: "0 \<le> ?N" by (simp add: float_val_def)
  have m5: "0 \<le> mantissa double_0_5" by (simp add: double_0_5_def)
  have m95: "0 \<le> mantissa double_0_95" by (simp add: double_0_95_def)
  have "float_val (float_mul (float_of_nat n) double_0_5)
          \<le> ?N * float_val double_0_5 * (1 + 1 / 2 ^ 52)"
    using float_mul_close [OF m m5] by blast
  also have "\<dots> = ?N * (1 / 2 * (1 + 1 / 2 ^ 52))"
    by (simp only: float_val_double_0_5 mult.assoc)
  also have "\<dots> \<le> ?N * (8556839292003942 / 2 ^ 53 * (1 - 1 / 2 ^ 52))"
    using N by (intro mult_left_mono) simp_all
  also have "\<dots> = ?N * float_val double_0_95 * (1 - 1 / 2 ^ 52)"
    by (simp only: float_val_double_0_95 mult.assoc)
  also have "\<dots> \<le> float_val (float_mul (float_of_nat n) double_0_95)"
    using float_mul_close [OF m m95] by blast
  finally show ?thesis .
qed

lemma median_p95_ordered:
  assumes "sorted xs" and "xs \<noteq> []"
  shows "\<exists>a b. get_percentile xs double_0_5 = Inr a \<and> get_percentile xs double_0_95 = Inr b
           \<and> xs ! 0 \<le> a \<and> a \<le> b \<and> b \<le> xs ! (length xs - 1)"
proof -
  let ?n = "length xs"
  let ?i = "min (nat \<lfloor>float_val (float_mul (float_of_nat ?n) double_0_5)\<rfloor>) (?n - 1)"
  let ?j = "min (nat \<lfloor>float_val (float_mul (float_of_nat ?n) double_0_95)\<rfloor>) (?n - 1)"
  have m5: "0 \<le> mantissa double_0_5" by (simp add: double_0_5_def)
  have m95: "0 \<le> mantissa double_0_95" by (simp add: double_0_95_def)
  have "\<lfloor>float_val (float_mul (float_of_nat ?n) double_0_5)\<rfloor>
          \<le> \<lfloor>float_val (float_mul (float_of_nat ?n) double_0_95)\<rfloor>"
    using median_product_le_p95_product by (rule floor_mono)
  then have "nat \<lfloor>float_val (float_mul (float_of_nat ?n) double_0_5)\<rfloor>
          \<le> nat \<lfloor>float_val (float_mul (float_of_nat ?n) double_0_95)\<rfloor>"
    by (rule nat_mono)
  then have ij: "?i \<le> ?j" by arith
  have i: "?i < ?n" using assms(2) by (rule clamp_lt_length)
  have j: "?j < ?n" using assms(2) by (rule clamp_lt_length)
  have l: "?n - 1 < ?n" using clamp_lt_length [OF assms(2), of "?n - 1"] by simp
  have "xs ! 0 \<le> xs ! ?i" using assms(1) _ i by (rule sorted_nth_mono) simp
  moreover have "xs ! ?i \<le> xs ! ?j" using assms(1) ij j by (rule sorted_nth_mono)
  moreover have "xs ! ?j \<le> xs ! (?n - 1)" using assms(1) _ l by (rule sorted_nth_mono) simp
  ultimately show ?thesis
    using get_percentile_index [OF assms(2) m5] get_percentile_index [OF assms(2) m95]
    by simp
qed

lemma sorted_first_Min: "sorted xs \<Longrightarrow> xs \<noteq> [] \<Longrightarrow> xs ! 0 = Min (set xs)"
  for xs :: "real list"
  by (cases xs) (auto intro!: Min_eqI [symmetric])

lemma sorted_last_Max:
  fixes xs :: "real list"
  assumes "sorted xs" and "xs \<noteq> []"
  shows "xs ! (length xs - 1) = Max (set xs)"
proof (rule Max_eqI [symmetric])
  show "finite (set xs)" by simp
  have l: "length xs - 1 < length xs" using clamp_lt_length [OF assms(2), of "length xs - 1"] by simp
  then show "xs ! (length xs - 1) \<in> set xs" by (rule nth_mem)
  fix y assume "y \<in> set xs"
  then obtain i where i: "i < length xs" and y: "y = xs ! i" by (auto simp: in_set_conv_nth)
  from i have "i \<le> length xs - 1" by arith
  with assms(1) have "xs ! i \<le> xs ! (length xs - 1)" using l by (rule sorted_nth_mono)
  then show "y \<le> xs ! (length xs - 1)" by (simp add: y)
qed

lemma float_product_close:
  assumes "n < 2 ^ 53" and "0 \<le> mantissa p"
  shows "real n * float_val p * (1 - 1 / 2 ^ 52) \<le> float_val (float_mul (float_of_nat n) p)
       \<and> float_val (float_mul (float_of_nat n) p) \<le> real n * float_val p * (1 + 1 / 2 ^ 52)"
proof -
  have e: "float_of_nat n = Dbl (int n) 0" using assms(1) by (rule float_of_nat_exact)
  have m: "0 \<le> mantissa (Dbl (int n) 0)" by simp
  have v: "float_val (Dbl (int n) 0) = real n" by (simp add: float_val_def)
  from float_mul_close [OF m assms(2)] show ?thesis unfolding e v by blast
qed

lemma float_product_exact:
  assumes "n < 2 ^ 53" and "mantissa p = 2 ^ k"
  shows "float_val (float_mul (float_of_nat n) p) = real n * float_val p"
proof -
  obtain e where p: "p = Dbl (2 ^ k) e" using assms(2) by (cases p) simp
  have f: "float_of_nat n = Dbl (int n) 0" using assms(1) by (rule float_of_nat_exact)
  have a: "nat \<bar>int n * 2 ^ k\<bar> = n * 2 ^ k"
    by (simp add: nat_mult_distrib nat_power_eq abs_mult)
  obtain q s where qs: "round_53 (n * 2 ^ k) = (q, s)" by (cases "round_53 (n * 2 ^ k)")
  have ex: "q * 2 ^ s = n * 2 ^ k" using assms(1) qs by (rule round_53_shift_exact)
  have sg: "sgn (int n * 2 ^ k) * int q = int q"
  proof (cases "n = 0")
    case True
    with ex have "q = 0" by simp
    then show ?thesis by simp
  next
    case False
    then have "0 < int n * 2 ^ k" by simp
    then have "sgn (int n * 2 ^ k) = 1" by (rule sgn_pos)
    then show ?thesis by (simp only: mult_1)
  qed
  have r: "float_mul (float_of_nat n) p = Dbl (int q) (int s + e)"
    by (simp only: f p float_mul.simps a qs prod.case sg add_0_right)
  have "float_val (float_mul (float_of_nat n) p) = real (q * 2 ^ s) * 2 powi e"
    by (simp add: r float_val_def power_int_add)
  also have "\<dots> = real (n * 2 ^ k) * 2 powi e" by (simp only: ex)
  also have "\<dots> = real n * float_val p" by (simp add: p float_val_def)
  finally show ?thesis .
qed

lemma float_val_one_power_of_two:
  assumes "float_val p = 1"
  shows "\<exists>k. mantissa p = 2 ^ k"
proof (cases p)
  case (Dbl m e)
  show ?thesis
  proof (cases "0 \<le> e")
    case True
    then have "(2::real) powi e = 2 ^ nat e" by (simp add: power_int_def)
    with assms have "real_of_int (m * 2 ^ nat e) = 1" by (simp add: Dbl float_val_def)
    then have "m * 2 ^ nat e = 1" by (simp only: of_int_eq_1_iff)
    then have "m = 1 \<or> m = - 1 \<and> (2::int) ^ nat e = - 1" by (auto simp: zmult_eq_1_iff)
    moreover have "(0::int) < 2 ^ nat e" by simp
    ultimately have "m = 2 ^ 0" by auto
    then show ?thesis unfolding Dbl pyfloat.sel by (rule exI)
  next
    case False
    then have "(2::real) powi e = 1 / 2 ^ nat (- e)" by (simp add: power_int_def field_simps)
    with assms have "real_of_int m = real_of_int (2 ^ nat (- e))"
      by (simp add: Dbl float_val_def field_simps)
    then have "m = 2 ^ nat (- e)" by (simp only: of_int_eq_iff)
    then show ?thesis unfolding Dbl pyfloat.sel by (rule exI)
  qed
qed

lemma float_val_sign: "0 \<le> float_val p \<longleftrightarrow> 0 \<le> mantissa p"
proof
  assume v: "0 \<le> float_val p"
  show "0 \<le> mantissa p"
  proof (rule ccontr)
    assume "\<not> 0 \<le> mantissa p"
    then have "real_of_int (mantissa p) < 0" by simp
    moreover have "(0::real) < 2 powi exponent p" by simp
    ultimately have "real_of_int (mantissa p) * 2 powi exponent p < 0" by (rule mult_neg_pos)
    moreover have "0 \<le> real_of_int (mantissa p) * 2 powi exponent p"
      using v by (simp only: float_val_def)
    ultimately show False by linarith
  qed
next
  assume "0 \<le> mantissa p"
  then have "0 \<le> real_of_int (mantissa p)" by simp
  moreover have "(0::real) \<le> 2 powi exponent p" by simp
  ultimately show "0 \<le> float_val p" unfolding float_val_def by (rule mult_nonneg_nonneg)
qed

lemma bit_length_product_0_95: "bit_length 85568392920039420 = 57"
  by (rule bit_length_eqI [of 56, simplified]) simp_all

lemma bit_length_product_0_6: "bit_length 27021597764222975 = 55"
  by (rule bit_length_eqI [of 54, simplified]) simp_all

lemma bit_length_product_0_58: "bit_length 261208778387488750 = 58"
  by (rule bit_length_eqI [of 57, simplified]) simp_all

lemma py_int_ten_median: "py_int (float_mul (float_of_nat 10) double_0_5) = 5"
  by (simp add: float_of_nat_exact round_53_exact double_0_5_def)

lemma py_int_ten_p95: "py_int (float_mul (float_of_nat 10) double_0_95) = 9"
  by (simp add: float_of_nat_exact round_53_def bit_length_product_0_95 double_0_95_def)

lemma py_int_five_0_6: "py_int (float_mul (float_of_nat 5) double_0_6) = 3"
  by (simp add: float_of_nat_exact round_53_def bit_length_product_0_6 double_0_6_def)

lemma py_int_fifty_0_58: "py_int (float_mul (float_of_nat 50) double_0_58) = 28"
  by (simp add: float_of_nat_exact round_53_def bit_length_product_0_58 double_0_58_def)

lemma get_percentile_ten_median: "get_percentile [1, 2, 3, 4, 5, 6, 7, 8, 9, 10] double_0_5 = Inr 6"
proof -
  have len: "length [1, 2, 3, 4, 5, 6, 7, 8, 9, 10 :: real] = 10" by simp
  show ?thesis
    unfolding get_percentile_def len py_int_ten_median by (simp add: py_index_def)
qed

lemma get_percentile_ten_p95: "get_percentile [1, 2, 3, 4, 5, 6, 7, 8, 9, 10] double_0_95 = Inr 10"
proof -
  have len: "length [1, 2, 3, 4, 5, 6, 7, 8, 9, 10 :: real] = 10" by simp
  show ?thesis
    unfolding get_percentile_def len py_int_ten_p95 by (simp add: py_index_def)
qed

lemma get_percentile_five_0_6: "get_percentile [1, 2, 3, 4, 5] double_0_6 = Inr 4"
proof -
  have len: "length [1, 2, 3, 4, 5 :: real] = 5" by simp
  show ?thesis
    unfolding get_percentile_def len py_int_five_0_6 by (simp add: py_index_def)
qed

lemma get_percentile_fifty_0_58: "get_percentile one_to_fifty double_0_58 = Inr 29"
proof -
  have len: "length one_to_fifty = 50" by (simp add: one_to_fifty_def)
  have ne: "one_to_fifty \<noteq> []" using len by auto
  have "get_percentile one_to_fifty double_0_58 = py_index one_to_fifty 28"
    unfolding get_percentile_def len py_int_fifty_0_58 using ne by simp
  also have "\<dots> = Inr (one_to_fifty ! 28)"
    using py_index_in_range [of 28 one_to_fifty] len by simp
  also have "one_to_fifty ! 28 = 29" by (simp add: one_to_fifty_def)
  finally show ?thesis .
qed

text \<open>
  The index is not \<open>floor (n * p)\<close> of the exact product. For five values and the float
  \<^verbatim>\<open>0.6\<close> the exact product is just below 3 and its floor is 2, while the float product
  is 3.0: the function returns the element of index 3. For fifty values and the float
  \<^verbatim>\<open>0.58\<close> the float product is just below 29, so the function returns the element of
  index 28, while \<open>floor (50 * 58/100)\<close> is 29.
\<close>

theorem get_percentile_exact_rank_counterexample:
  "[1, 2, 3, 4, 5] \<noteq> ([] :: real list) \<and> sorted [1, 2, 3, 4, 5 :: real]
   \<and> is_double double_0_6 \<and> 0 \<le> float_val double_0_6 \<and> float_val double_0_6 \<le> 1
   \<and> \<not> (get_percentile [1, 2, 3, 4, 5] double_0_6 =
          Inr ([1, 2, 3, 4, 5] ! nat (max 0 (min \<lfloor>real (length [1, 2, 3, 4, 5 :: real]) * float_val double_0_6\<rfloor>
                                              (int (length [1, 2, 3, 4, 5 :: real]) - 1)))))
   \<and> one_to_fifty \<noteq> [] \<and> sorted one_to_fifty
   \<and> is_double double_0_58 \<and> \<bar>float_val double_0_58 - 58 / 100\<bar> \<le> 1 / 2 ^ 54
   \<and> \<not> (get_percentile one_to_fifty double_0_58 =
          Inr (one_to_fifty ! nat (max 0 (min \<lfloor>real (length one_to_fifty) * (58 / 100)\<rfloor>
                                             (int (length one_to_fifty) - 1)))))"
proof -
  have v6: "float_val double_0_6 = 5404319552844595 / 2 ^ 53"
    by (simp add: float_val_def double_0_6_def)
  have v58: "float_val double_0_58 = 5224175567749775 / 2 ^ 53"
    by (simp add: float_val_def double_0_58_def)
  have a: "[1, 2, 3, 4, 5] \<noteq> ([] :: real list) \<and> sorted [1, 2, 3, 4, 5 :: real]" by simp
  have b: "is_double double_0_6 \<and> 0 \<le> float_val double_0_6 \<and> float_val double_0_6 \<le> 1"
    by (simp add: v6) (simp add: is_double_def double_0_6_def)
  have c: "\<not> (get_percentile [1, 2, 3, 4, 5] double_0_6 =
          Inr ([1, 2, 3, 4, 5] ! nat (max 0 (min \<lfloor>real (length [1, 2, 3, 4, 5 :: real]) * float_val double_0_6\<rfloor>
                                              (int (length [1, 2, 3, 4, 5 :: real]) - 1)))))"
    by (simp add: get_percentile_five_0_6 v6)
  have d: "one_to_fifty \<noteq> [] \<and> sorted one_to_fifty"
    by (simp add: one_to_fifty_def sorted_map)
  have e: "is_double double_0_58 \<and> \<bar>float_val double_0_58 - 58 / 100\<bar> \<le> 1 / 2 ^ 54"
    by (simp add: v58) (simp add: is_double_def double_0_58_def)
  have f: "\<not> (get_percentile one_to_fifty double_0_58 =
          Inr (one_to_fifty ! nat (max 0 (min \<lfloor>real (length one_to_fifty) * (58 / 100)\<rfloor>
                                             (int (length one_to_fifty) - 1)))))"
    by (simp add: get_percentile_fifty_0_58) (simp add: one_to_fifty_def)
  from a b c d e f show ?thesis by blast
qed

text \<open>
  Claim C5, amended. On a non-empty ascending list of length \<open>n < 2 ^ 53\<close> and for a float
  \<open>p\<close> in \<open>[0, 1]\<close>, \<^verbatim>\<open>get_percentile\<close> returns the element at index \<open>floor v\<close>
  clamped to \<open>[0, n - 1]\<close>, where \<open>v\<close> is the float product of \<open>n\<close> and \<open>p\<close>: the
  exact product rounded to 53 significant bits, within a relative \<open>2 ^ -52\<close> of it.
  When \<open>p\<close> is a power of two the product is exact and the index is \<open>floor (n * p)\<close>.
  \<open>p = 0\<close> returns the minimum and \<open>p = 1\<close> the maximum; on the values 1 to 10 the
  float \<^verbatim>\<open>0.5\<close> returns 6 and the float \<^verbatim>\<open>0.95\<close> returns 10.
\<close>

theorem get_percentile_rounded_rank:
  assumes "xs \<noteq> []" and "sorted xs" and "length xs < 2 ^ 53"
    and "0 \<le> float_val p" and "float_val p \<le> 1"
  shows "get_percentile xs p =
           Inr (xs ! nat (max 0 (min \<lfloor>float_val (float_mul (float_of_nat (length xs)) p)\<rfloor>
                                     (int (length xs) - 1))))
       \<and> real (length xs) * float_val p * (1 - 1 / 2 ^ 52)
            \<le> float_val (float_mul (float_of_nat (length xs)) p)
       \<and> float_val (float_mul (float_of_nat (length xs)) p)
            \<le> real (length xs) * float_val p * (1 + 1 / 2 ^ 52)
       \<and> ((\<exists>k. mantissa p = 2 ^ k) \<longrightarrow>
            get_percentile xs p =
              Inr (xs ! nat (max 0 (min \<lfloor>real (length xs) * float_val p\<rfloor> (int (length xs) - 1)))))
       \<and> (float_val p = 0 \<longrightarrow> get_percentile xs p = Inr (Min (set xs)))
       \<and> (float_val p = 1 \<longrightarrow> get_percentile xs p = Inr (Max (set xs)))
       \<and> get_percentile [1, 2, 3, 4, 5, 6, 7, 8, 9, 10] double_0_5 = Inr 6
       \<and> get_percentile [1, 2, 3, 4, 5, 6, 7, 8, 9, 10] double_0_95 = Inr 10"
proof -
  let ?n = "length xs"
  let ?v = "float_val (float_mul (float_of_nat ?n) p)"
  have pos: "0 < ?n" using assms(1) by simp
  have mp: "0 \<le> mantissa p" using assms(4) by (simp only: float_val_sign)
  have v0: "0 \<le> ?v" using float_product_nonneg [OF mp, of ?n] by blast
  then have f0: "0 \<le> \<lfloor>?v\<rfloor>" by simp
  have clamp: "nat (max 0 (min z (int ?n - 1))) = min (nat z) (?n - 1)" if "0 \<le> z" for z
    using that pos by arith
  have idx: "get_percentile xs p = Inr (xs ! min (nat \<lfloor>?v\<rfloor>) (?n - 1))"
    using assms(1) mp by (rule get_percentile_index)
  have general: "get_percentile xs p = Inr (xs ! nat (max 0 (min \<lfloor>?v\<rfloor> (int ?n - 1))))"
    by (simp only: idx clamp [OF f0])
  have close: "real ?n * float_val p * (1 - 1 / 2 ^ 52) \<le> ?v
      \<and> ?v \<le> real ?n * float_val p * (1 + 1 / 2 ^ 52)"
    using assms(3) mp by (rule float_product_close)
  have exact: "get_percentile xs p =
      Inr (xs ! nat (max 0 (min \<lfloor>real ?n * float_val p\<rfloor> (int ?n - 1))))"
    if "\<exists>k. mantissa p = 2 ^ k"
  proof -
    from that obtain k where "mantissa p = 2 ^ k" ..
    with assms(3) have "?v = real ?n * float_val p" by (rule float_product_exact)
    with general show ?thesis by simp
  qed
  have lowest: "get_percentile xs p = Inr (Min (set xs))" if "float_val p = 0"
  proof -
    from close that have "?v = 0" by simp
    then have "get_percentile xs p = Inr (xs ! 0)" using idx by simp
    then show ?thesis using sorted_first_Min [OF assms(2,1)] by simp
  qed
  have highest: "get_percentile xs p = Inr (Max (set xs))" if "float_val p = 1"
  proof -
    from that have "\<exists>k. mantissa p = 2 ^ k" by (rule float_val_one_power_of_two)
    then obtain k where "mantissa p = 2 ^ k" ..
    with assms(3) have "?v = real ?n * float_val p" by (rule float_product_exact)
    then have "?v = real ?n" using that by simp
    then have "\<lfloor>?v\<rfloor> = int ?n" by simp
    then have "min (nat \<lfloor>?v\<rfloor>) (?n - 1) = ?n - 1" by simp
    then have "get_percentile xs p = Inr (xs ! (?n - 1))" using idx by simp
    then show ?thesis using sorted_last_Max [OF assms(2,1)] by simp
  qed
  from general close exact lowest highest get_percentile_ten_median get_percentile_ten_p95
  show ?thesis by blast
qed

theorem get_percentile_rounded_rank_witness:
  "[1, 2, 3, 4, 5, 6, 7, 8, 9, 10] \<noteq> ([] :: real list)
   \<and> sorted [1, 2, 3, 4, 5, 6, 7, 8, 9, 10 :: real]
   \<and> length [1, 2, 3, 4, 5, 6, 7, 8, 9, 10 :: real] < 2 ^ 53
   \<and> 0 \<le> float_val double_0_5 \<and> float_val double_0_5 \<le> 1
   \<and> get_percentile [1, 2, 3, 4, 5, 6, 7, 8, 9, 10] double_0_5
        = Inr ([1, 2, 3, 4, 5, 6, 7, 8, 9, 10] ! 5)"
proof -
  have ne: "[1, 2, 3, 4, 5, 6, 7, 8, 9, 10] \<noteq> ([] :: real list)" by simp
  have so: "sorted [1, 2, 3, 4, 5, 6, 7, 8, 9, 10 :: real]" by simp
  have le: "length [1, 2, 3, 4, 5, 6, 7, 8, 9, 10 :: real] < 2 ^ 53" by simp
  have p0: "0 \<le> float_val double_0_5" by (simp add: float_val_double_0_5)
  have p1: "float_val double_0_5 \<le> 1" by (simp add: float_val_double_0_5)
  have pw: "\<exists>k. mantissa double_0_5 = 2 ^ k"
    by (rule exI [of _ 0]) (simp add: double_0_5_def)
  from get_percentile_rounded_rank [OF ne so le p0 p1] pw
  have "get_percentile [1, 2, 3, 4, 5, 6, 7, 8, 9, 10] double_0_5 =
      Inr ([1, 2, 3, 4, 5, 6, 7, 8, 9, 10] ! nat (max 0 (min
        \<lfloor>real (length [1, 2, 3, 4, 5, 6, 7, 8, 9, 10 :: real]) * float_val double_0_5\<rfloor>
        (int (length [1, 2, 3, 4, 5, 6, 7, 8, 9, 10 :: real]) - 1))))"
    by blast
  then have "get_percentile [1, 2, 3, 4, 5, 6, 7, 8, 9, 10] double_0_5
        = Inr ([1, 2, 3, 4, 5, 6, 7, 8, 9, 10] ! 5)"
    by (simp add: float_val_double_0_5)
  with ne so le p0 p1 show ?thesis by blast
qed

section \<open>Coefficient of variation\<close>

lemma sum_list_map_nth: "sum_list (map f xs) = (\<Sum>i<length xs. f (xs ! i))"
  for f :: "'a \<Rightarrow> real"
proof -
  have "sum_list (map f xs) = (\<Sum>i = 0..<length (map f xs). map f xs ! i)"
    by (rule sum_list_sum_nth)
  also have "\<dots> = (\<Sum>i<length xs. f (xs ! i))"
    by (simp add: atLeast0LessThan)
  finally show ?thesis .
qed

lemma mean_of_sum_list: "real_of_int (sum_list xs) / real (length xs) = mean_of xs"
proof -
  have "real_of_int (sum_list xs) = sum_list (map real_of_int xs)"
    by (induction xs) simp_all
  then show ?thesis by (simp add: mean_of_def sum_list_map_nth)
qed

lemma variance_sum_list:
  "sum_list (map (\<lambda>v. (real_of_int v - mean_of xs) ^ 2) xs) / real (length xs)
     = population_variance xs"
  by (simp add: population_variance_def sum_list_map_nth)

lemma coefficient_of_variation_formula:
  "coefficient_of_variation xs =
     (if length xs < 2 \<or> mean_of xs = 0 then 0
      else population_std_dev xs / mean_of xs * 100)"
proof (cases "length xs < 2")
  case True
  then show ?thesis by (simp add: coefficient_of_variation_def)
next
  case False
  then have ne: "xs \<noteq> []" by auto
  show ?thesis
    using False ne
    by (simp add: coefficient_of_variation_def Let_def mean_of_sum_list variance_sum_list
          population_std_dev_def)
qed

text \<open>
  Claim C6. \<^verbatim>\<open>coefficient_of_variation\<close> is the population standard deviation (variance
  with divisor \<open>n\<close>) divided by the mean, times 100, and is 0 when the list has fewer than
  two elements or its mean is 0. On \<open>[10, 10, 10]\<close> it is 0, on \<open>[0, 10]\<close> it is 100.
\<close>

theorem coefficient_of_variation_population:
  "coefficient_of_variation xs =
     (if length xs < 2 \<or> mean_of xs = 0 then 0
      else population_std_dev xs / mean_of xs * 100)
   \<and> coefficient_of_variation [10, 10, 10] = 0
   \<and> coefficient_of_variation [0, 10] = 100"
proof -
  have a: "coefficient_of_variation [10, 10, 10] = 0"
    by (simp add: coefficient_of_variation_def)
  have b: "coefficient_of_variation [0, 10] = 100"
    by (simp add: coefficient_of_variation_def Let_def)
  from coefficient_of_variation_formula a b show ?thesis by blast
qed

section \<open>The distribution table\<close>

lemma distribution_row_ordered:
  assumes "photos \<noteq> []"
  shows "\<exists>row. distribution_row name fld photos = Inr row \<and> fst row = name \<and> row_ordered row"
proof -
  define times where "times = sort (map (\<lambda>p. real_of_int (fld p) / 1000000) photos)"
  have "length times = length photos" by (simp add: times_def)
  then have ne: "times \<noteq> []" using assms by auto
  have so: "sorted times" by (simp add: times_def)
  let ?n = "length times"
  obtain a b where a: "get_percentile times double_0_5 = Inr a"
    and b: "get_percentile times double_0_95 = Inr b"
    and lo: "times ! 0 \<le> a" and ab: "a \<le> b" and hi: "b \<le> times ! (?n - 1)"
    using median_p95_ordered [OF so ne] by blast
  have "distribution_row name fld photos = Inr (name, times ! 0, a, b, times ! (?n - 1))"
    unfolding distribution_row_def times_def [symmetric]
    using a b py_index_first [OF ne] py_index_last [OF ne]
    by (simp add: Let_def bind_err_def)
  with lo ab hi show ?thesis by simp
qed

lemma distribution_table_ordered:
  assumes "photos \<noteq> []"
  shows "\<exists>rows. distribution_table photos = Inr rows
           \<and> map fst rows = [''Image Decode'', ''Thumbnails'', ''Color Extract'', ''TOTAL'']
           \<and> list_all row_ordered rows"
proof -
  obtain r1 where r1: "distribution_row ''Image Decode'' ImageDecodeTime photos = Inr r1"
      "fst r1 = ''Image Decode''" "row_ordered r1"
    using distribution_row_ordered [OF assms] by blast
  obtain r2 where r2: "distribution_row ''Thumbnails'' ThumbnailTime photos = Inr r2"
      "fst r2 = ''Thumbnails''" "row_ordered r2"
    using distribution_row_ordered [OF assms] by blast
  obtain r3 where r3: "distribution_row ''Color Extract'' ColorTime photos = Inr r3"
      "fst r3 = ''Color Extract''" "row_ordered r3"
    using distribution_row_ordered [OF assms] by blast
  obtain r4 where r4: "distribution_row ''TOTAL'' TotalTime photos = Inr r4"
      "fst r4 = ''TOTAL''" "row_ordered r4"
    using distribution_row_ordered [OF assms] by blast
  have "distribution_table photos = Inr [r1, r2, r3, r4]"
    by (simp add: distribution_table_def bind_err_def r1(1) r2(1) r3(1) r4(1))
  then show ?thesis using r1 r2 r3 r4 by simp
qed

lemma throughput_of_defined:
  "total_of TotalTime photos \<noteq> 0 \<Longrightarrow>
     throughput_of photos = Inr (real_of_int (total_of FileSize photos) / 1024 / 1024
                                  / (real_of_int (total_of TotalTime photos) / 1000000000))"
  by (simp add: throughput_of_def py_true_div_def)

lemma throughput_of_zero_time:
  "total_of TotalTime photos = 0 \<Longrightarrow> throughput_of photos = Inl ZeroDivisionError"
  by (simp add: throughput_of_def py_true_div_def)

text \<open>
  Claim C9. For every non-empty list of records the distribution block of
  \<^verbatim>\<open>analyze_photos\<close> yields its four rows (Image Decode, Thumbnails, Color Extract,
  TOTAL), each with minimum \<open>\<le>\<close> median \<open>\<le>\<close> 95th percentile \<open>\<le>\<close> maximum; whenever
  \<^verbatim>\<open>analyze_photos\<close> returns a report, these are the rows it reports, and it returns
  one whenever the total time of the records is not zero.
\<close>

theorem distribution_min_median_p95_max:
  assumes "photos \<noteq> []"
  shows "\<exists>rows. distribution_table photos = Inr rows
           \<and> map fst rows = [''Image Decode'', ''Thumbnails'', ''Color Extract'', ''TOTAL'']
           \<and> list_all row_ordered rows
           \<and> (\<forall>r. analyze_photos photos label = Inr (Analysis r) \<longrightarrow> distribution_rows r = rows)
           \<and> (total_of TotalTime photos \<noteq> 0 \<longrightarrow>
                (\<exists>r. analyze_photos photos label = Inr (Analysis r)))"
proof -
  obtain rows where rows: "distribution_table photos = Inr rows"
      "map fst rows = [''Image Decode'', ''Thumbnails'', ''Color Extract'', ''TOTAL'']"
      "list_all row_ordered rows"
    using distribution_table_ordered [OF assms] by auto
  have given: "\<forall>r. analyze_photos photos label = Inr (Analysis r) \<longrightarrow> distribution_rows r = rows"
    using assms rows(1)
    by (auto simp: analyze_photos_def Let_def bind_err_def split: sum.splits)
  have returns: "total_of TotalTime photos \<noteq> 0 \<longrightarrow>
      (\<exists>r. analyze_photos photos label = Inr (Analysis r))"
    using assms rows(1)
    by (simp add: analyze_photos_def Let_def bind_err_def throughput_of_defined)
  from rows given returns show ?thesis by auto
qed

theorem distribution_min_median_p95_max_witness:
  "[shot_a, shot_b] \<noteq> [] \<and> total_of TotalTime [shot_a, shot_b] \<noteq> 0
   \<and> (\<exists>r. analyze_photos [shot_a, shot_b] ''.jpg files'' = Inr (Analysis r)
           \<and> map fst (distribution_rows r) =
               [''Image Decode'', ''Thumbnails'', ''Color Extract'', ''TOTAL'']
           \<and> list_all row_ordered (distribution_rows r))"
proof -
  have ne: "[shot_a, shot_b] \<noteq> []" by simp
  have tt: "total_of TotalTime [shot_a, shot_b] \<noteq> 0"
    by (simp add: total_of_def shot_a_def shot_b_def)
  from ne tt distribution_min_median_p95_max [OF ne, of "''.jpg files''"]
  show ?thesis by auto
qed

section \<open>Throughput on a zero total time\<close>

lemma analyze_photos_zero_time:
  "photos \<noteq> [] \<Longrightarrow> total_of TotalTime photos = 0 \<Longrightarrow>
     analyze_photos photos label = Inl ZeroDivisionError"
  by (simp add: analyze_photos_def Let_def bind_err_def throughput_of_zero_time)

text \<open>
  Claim C1 fails on the code. On the single record \<open>photo_dng\<close>, whose total time is 0,
  \<^verbatim>\<open>analyze_photos\<close> raises ZeroDivisionError at the throughput line instead of reporting
  0 or skipping the line. The percentage column of the stage table, computed from the same
  zero total, is guarded and is 0.
\<close>

theorem throughput_zero_time_raises:
  "analyze_photos [photo_dng] ''.DNG files'' = Inl ZeroDivisionError
   \<and> total_of TotalTime [photo_dng] = 0
   \<and> stage_table [photo_dng] = map (\<lambda>(name, t). (name, 0, 0)) (stage_averages [photo_dng])"
proof -
  have z: "total_of TotalTime [photo_dng] = 0" by (simp add: total_of_def photo_dng_def)
  have ne: "[photo_dng] \<noteq> []" by simp
  have a: "analyze_photos [photo_dng] ''.DNG files'' = Inl ZeroDivisionError"
    using ne z by (rule analyze_photos_zero_time)
  have s: "stage_table [photo_dng] = map (\<lambda>(name, t). (name, 0, 0)) (stage_averages [photo_dng])"
    by (simp add: stage_table_def stage_averages_def avg_ms_def total_of_def photo_dng_def)
  from a z s show ?thesis by blast
qed

section \<open>The variability ranking\<close>

lemma sorted_reverse_descending: "sorted (rev (map k (sorted_reverse k xs)))"
  by (simp add: sorted_reverse_def rev_map [symmetric])

lemma sorted_reverse_stable:
  "filter (\<lambda>x. k x = v) (sorted_reverse k xs) = filter (\<lambda>x. k x = v) xs"
proof -
  have "filter (\<lambda>x. k x = v) (sorted_reverse k xs) =
          rev (filter (\<lambda>x. k x = v) (sort_key k (rev xs)))"
    by (simp add: sorted_reverse_def rev_filter)
  also have "\<dots> = rev (filter (\<lambda>x. k x = v) (rev xs))"
    by (simp only: sort_key_stable)
  also have "\<dots> = filter (\<lambda>x. k x = v) xs"
    by (simp add: rev_filter)
  finally show ?thesis .
qed

lemma set_sorted_reverse: "set (sorted_reverse k xs) = set xs"
  by (simp add: sorted_reverse_def)

lemma variability_table_names:
  "fst ` set (variability_table photos) =
     {''Hash'', ''Metadata'', ''Image Decode'', ''Thumbnails'', ''Color Extract'',
      ''Perceptual Hash'', ''Database''}"
  by (simp add: variability_table_def set_sorted_reverse variability_def)

lemma variability_table_no_inference:
  "''Inference'' \<notin> fst ` set (variability_table photos)"
  unfolding variability_table_names by simp

lemma variability_ab:
  "variability [shot_a, shot_b] =
     [(''Hash'', 0), (''Metadata'', 50), (''Image Decode'', 100), (''Thumbnails'', 50),
      (''Color Extract'', 100), (''Perceptual Hash'', 0), (''Database'', 0)]"
  by (simp add: variability_def coefficient_of_variation_def Let_def shot_a_def shot_b_def)

text \<open>
  Claim C3 fails on the code. The ranking is by descending coefficient of variation and
  ties keep the declaration order, but the stage Inference is never ranked: on the records
  \<open>shot_a\<close> and \<open>shot_b\<close> the ranking has seven rows, while the table of average timings
  has all eight stages and the inference timings have a coefficient of variation of 100.
\<close>

theorem variability_omits_inference:
  "(\<exists>r. analyze_photos [shot_a, shot_b] ''.jpg files'' = Inr (Analysis r)
      \<and> variability_rows r =
          [(''Image Decode'', 100), (''Color Extract'', 100), (''Metadata'', 50),
           (''Thumbnails'', 50), (''Hash'', 0), (''Perceptual Hash'', 0), (''Database'', 0)]
      \<and> map fst (stage_rows r) =
          [''Hash'', ''Metadata'', ''Image Decode'', ''Thumbnails'', ''Color Extract'',
           ''Perceptual Hash'', ''Inference'', ''Database''])
   \<and> coefficient_of_variation (map InferenceTime [shot_a, shot_b]) = 100"
proof -
  have vt: "variability_table [shot_a, shot_b] =
          [(''Image Decode'', 100), (''Color Extract'', 100), (''Metadata'', 50),
           (''Thumbnails'', 50), (''Hash'', 0), (''Perceptual Hash'', 0), (''Database'', 0)]"
    by (simp add: variability_table_def variability_ab sorted_reverse_def)
  have st: "map fst (stage_table [shot_a, shot_b]) =
          [''Hash'', ''Metadata'', ''Image Decode'', ''Thumbnails'', ''Color Extract'',
           ''Perceptual Hash'', ''Inference'', ''Database'']"
    by (simp add: stage_table_def stage_averages_def Let_def)
  have tt: "total_of TotalTime [shot_a, shot_b] \<noteq> 0"
    by (simp add: total_of_def shot_a_def shot_b_def)
  obtain rows where rows: "distribution_table [shot_a, shot_b] = Inr rows"
    using distribution_table_ordered [of "[shot_a, shot_b]"] by auto
  have an: "\<exists>r. analyze_photos [shot_a, shot_b] ''.jpg files'' = Inr (Analysis r)
      \<and> variability_rows r = variability_table [shot_a, shot_b]
      \<and> stage_rows r = stage_table [shot_a, shot_b]"
    by (simp add: analyze_photos_def Let_def bind_err_def throughput_of_defined [OF tt] rows)
  have cv: "coefficient_of_variation (map InferenceTime [shot_a, shot_b]) = 100"
    by (simp add: coefficient_of_variation_def Let_def shot_a_def shot_b_def)
  from an vt st cv show ?thesis by auto
qed

section \<open>The comparator\<close>

lemma traverse_all_ok:
  "(\<And>x. x \<in> set xs \<Longrightarrow> f x = Inr (g x)) \<Longrightarrow> traverse f xs = Inr (map g xs)"
  by (induction xs) (simp_all add: bind_err_def)

lemma pct_row_ok:
  assumes "AvgTotalMs s \<noteq> 0" and "AvgTotalMs l \<noteq> 0"
  shows "pct_row s l st =
     Inr (fst st, snd st s / AvgTotalMs s * 100, snd st l / AvgTotalMs l * 100,
          snd st l / AvgTotalMs l * 100 - snd st s / AvgTotalMs s * 100)"
  using assms by (cases st) (simp add: pct_row_def py_true_div_def bind_err_def Let_def)

lemma abs_row_ok:
  "abs_row s l st =
     Inr (fst st, snd st s, snd st l, snd st l - snd st s,
          if snd st s > 0 then (snd st l / snd st s - 1) * 100 else 0)"
  by (cases st) (simp add: abs_row_def py_true_div_def bind_err_def Let_def)

lemma total_line_ok:
  "AvgTotalMs s \<noteq> 0 \<Longrightarrow>
     total_line s l = Inr (AvgTotalMs s, AvgTotalMs l, AvgTotalMs l - AvgTotalMs s,
                           (AvgTotalMs l / AvgTotalMs s - 1) * 100)"
  by (simp add: total_line_def py_true_div_def bind_err_def Let_def)

lemma total_line_zero_baseline:
  "AvgTotalMs s = 0 \<Longrightarrow> total_line s l = Inl ZeroDivisionError"
  by (simp add: total_line_def py_true_div_def bind_err_def Let_def)

lemma pct_row_zero_baseline:
  "AvgTotalMs s = 0 \<Longrightarrow> pct_row s l st = Inl ZeroDivisionError"
  by (cases st) (simp add: pct_row_def py_true_div_def bind_err_def)

lemma compare_summaries_zero_baseline:
  "AvgTotalMs (summary small) = 0 \<Longrightarrow> compare_summaries small large = Inl ZeroDivisionError"
  by (simp add: compare_summaries_def Let_def stages_def bind_err_def pct_row_zero_baseline)

lemma compare_summaries_ok:
  assumes "AvgTotalMs (summary small) \<noteq> 0" and "AvgTotalMs (summary large) \<noteq> 0"
  shows "compare_summaries small large =
     Inr \<lparr>pct_rows = map (\<lambda>st. (fst st,
              snd st (summary small) / AvgTotalMs (summary small) * 100,
              snd st (summary large) / AvgTotalMs (summary large) * 100,
              snd st (summary large) / AvgTotalMs (summary large) * 100
                - snd st (summary small) / AvgTotalMs (summary small) * 100)) stages,
          abs_rows = map (\<lambda>st. (fst st, snd st (summary small), snd st (summary large),
              snd st (summary large) - snd st (summary small),
              if snd st (summary small) > 0
              then (snd st (summary large) / snd st (summary small) - 1) * 100 else 0)) stages,
          total_row = (AvgTotalMs (summary small), AvgTotalMs (summary large),
              AvgTotalMs (summary large) - AvgTotalMs (summary small),
              (AvgTotalMs (summary large) / AvgTotalMs (summary small) - 1) * 100)\<rparr>"
proof -
  let ?s = "summary small" and ?l = "summary large"
  have p: "traverse (pct_row ?s ?l) stages = Inr (map (\<lambda>st. (fst st,
              snd st ?s / AvgTotalMs ?s * 100, snd st ?l / AvgTotalMs ?l * 100,
              snd st ?l / AvgTotalMs ?l * 100 - snd st ?s / AvgTotalMs ?s * 100)) stages)"
    by (rule traverse_all_ok) (rule pct_row_ok [OF assms])
  have a: "traverse (abs_row ?s ?l) stages = Inr (map (\<lambda>st. (fst st, snd st ?s, snd st ?l,
              snd st ?l - snd st ?s,
              if snd st ?s > 0 then (snd st ?l / snd st ?s - 1) * 100 else 0)) stages)"
    by (rule traverse_all_ok) (rule abs_row_ok)
  show ?thesis
    unfolding compare_summaries_def Let_def p a total_line_ok [OF assms(1)]
    by (simp add: bind_err_def)
qed

text \<open>
  Claim C8. When both summaries have a nonzero \<^verbatim>\<open>AvgTotalMs\<close>, both comparisons return,
  and the percentage-point deltas and the absolute deltas of \<^verbatim>\<open>compare_summaries a b\<close>
  are, stage by stage, the negations of those of \<^verbatim>\<open>compare_summaries b a\<close>.
\<close>

theorem compare_summaries_antisymmetric:
  assumes "AvgTotalMs (summary a) \<noteq> 0" and "AvgTotalMs (summary b) \<noteq> 0"
  shows "\<exists>ab ba. compare_summaries a b = Inr ab \<and> compare_summaries b a = Inr ba
           \<and> pct_deltas ab = negated (pct_deltas ba)
           \<and> abs_deltas ab = negated (abs_deltas ba)"
  unfolding compare_summaries_ok [OF assms] compare_summaries_ok [OF assms(2,1)]
  by (simp add: pct_deltas_def abs_deltas_def negated_def comp_def)

theorem compare_summaries_antisymmetric_witness:
  "AvgTotalMs (summary (dataset_of summary_a)) \<noteq> 0
   \<and> AvgTotalMs (summary (dataset_of summary_b)) \<noteq> 0
   \<and> (\<exists>ab ba. compare_summaries (dataset_of summary_a) (dataset_of summary_b) = Inr ab
         \<and> compare_summaries (dataset_of summary_b) (dataset_of summary_a) = Inr ba
         \<and> pct_deltas ab = negated (pct_deltas ba)
         \<and> abs_deltas ab = negated (abs_deltas ba))"
proof -
  have a: "AvgTotalMs (summary (dataset_of summary_a)) \<noteq> 0"
    by (simp add: dataset_of_def summary_a_def)
  have b: "AvgTotalMs (summary (dataset_of summary_b)) \<noteq> 0"
    by (simp add: dataset_of_def summary_b_def)
  from a b compare_summaries_antisymmetric [OF a b] show ?thesis by simp
qed

text \<open>
  Claim C4 fails on the code. With a baseline whose \<^verbatim>\<open>AvgTotalMs\<close> is 0,
  \<^verbatim>\<open>compare_summaries\<close> raises ZeroDivisionError, and so does the line of totals taken
  alone: its relative change has no zero fallback. The per-stage rows have one: a stage
  with baseline 0 gets the relative change 0.
\<close>

theorem total_change_zero_baseline_raises:
  "compare_summaries (dataset_of zero_summary) (dataset_of summary_b) = Inl ZeroDivisionError
   \<and> total_line zero_summary summary_b = Inl ZeroDivisionError
   \<and> abs_row zero_summary summary_b (''Hash'', AvgHashMs) = Inr (''Hash'', 0, 20, 20, 0)"
proof -
  have z: "AvgTotalMs zero_summary = 0" by (simp add: zero_summary_def)
  then have c: "compare_summaries (dataset_of zero_summary) (dataset_of summary_b)
      = Inl ZeroDivisionError"
    by (simp add: compare_summaries_zero_baseline dataset_of_def)
  have t: "total_line zero_summary summary_b = Inl ZeroDivisionError"
    using z by (rule total_line_zero_baseline)
  have r: "abs_row zero_summary summary_b (''Hash'', AvgHashMs) = Inr (''Hash'', 0, 20, 20, 0)"
    by (simp add: abs_row_def zero_summary_def summary_b_def)
  from c t r show ?thesis by simp
qed

section \<open>The entry point\<close>

lemma parse_args_no_flag:
  "parse_args [Positional f, Positional w] = Inr \<lparr>perfstats_file = PStr f, pattern = PStr w\<rparr>"
  by (simp add: parse_args_def)

lemma parse_args_flag_last:
  "parse_args [Positional f, Positional w, PatternFlag]
     = Inr \<lparr>perfstats_file = PStr f, pattern = PBool True\<rparr>"
  by (simp add: parse_args_def)

lemma parse_args_flag_before_pattern:
  "parse_args [Positional f, PatternFlag, Positional w]
     = Inr \<lparr>perfstats_file = PStr f, pattern = PStr w\<rparr>"
  by (simp add: parse_args_def)

lemma main_photos_no_flag:
  assumes "load f = Inr data" and "w \<noteq> []"
  shows "main_photos load [Positional f, Positional w]
           = filter_photos (detailed data) (PStr w) (PBool True)"
  using assms by (simp add: main_photos_def parse_args_no_flag bind_err_def filter_photos_def)

text \<open>
  Claim C2 fails on the code. Without the option, \<^verbatim>\<open>main\<close> passes the pattern itself as
  the mode switch, and a non-empty string is true: the selection is the substring one.
  On a document with the record \<^verbatim>\<open>photo.DNG\<close> and the pattern \<^verbatim>\<open>.dng\<close>, extension mode
  selects the record and \<^verbatim>\<open>main\<close> selects nothing. With the option after the pattern,
  the option overwrites the pattern with True and the selection raises TypeError.
\<close>

theorem main_ignores_extension_mode:
  "main_photos load_one_dng [Positional ''perfstats.json'', Positional ''.dng''] = Inr []
   \<and> filter_photos (detailed one_dng) (PStr ''.dng'') (PBool False) = Inr [photo_dng]
   \<and> main_photos load_one_dng [Positional ''perfstats.json'', Positional ''.dng'']
       = filter_photos (detailed one_dng) (PStr ''.dng'') (PBool True)
   \<and> main_photos load_one_dng [Positional ''perfstats.json'', Positional ''DNG'', PatternFlag]
       = Inl TypeError"
proof -
  have l: "load_one_dng ''perfstats.json'' = Inr one_dng" by (simp add: load_one_dng_def)
  have ne: "''.dng'' \<noteq> []" by simp
  have m: "main_photos load_one_dng [Positional ''perfstats.json'', Positional ''.dng'']
       = filter_photos (detailed one_dng) (PStr ''.dng'') (PBool True)"
    using l ne by (rule main_photos_no_flag)
  have s: "filter_photos (detailed one_dng) (PStr ''.dng'') (PBool True) = Inr []"
    by code_simp
  have e: "filter_photos (detailed one_dng) (PStr ''.dng'') (PBool False) = Inr [photo_dng]"
    by code_simp
  have t: "main_photos load_one_dng [Positional ''perfstats.json'', Positional ''DNG'', PatternFlag]
       = Inl TypeError"
    by (simp add: main_photos_def parse_args_flag_last bind_err_def filter_photos_def l one_dng_def)
  from m s e t show ?thesis by simp
qed

end
